theory Spec2Isabelle
  imports Complex_Main "HOL-Library.Log_Nat"
begin

section \<open>Double-precision arithmetic\<close>

text \<open>
  JavaScript numbers are IEEE 754 doubles. A finite double is modelled by the rational
  number it denotes, and an arithmetic operation by the exact operation followed by
  \<open>fl\<close>, the rounding to the nearest double, a tie going to the even significand.
  \<open>binade x\<close> is the exponent \<open>e\<close> with \<open>2^e \<le> |x| < 2^(e+1)\<close>; the doubles of that
  binade are the multiples of \<open>2^(e-52)\<close>. The bounds of the exponent (overflow,
  subnormal numbers) are not modelled: the operations are those of the source wherever
  the results are normal doubles, as all the results below are.
\<close>

definition binade :: "rat \<Rightarrow> int" where
  "binade x =
     (let (p, q) = quotient_of \<bar>x\<bar>; e = bitlen p - bitlen q
      in if 2 powi e \<le> \<bar>x\<bar> then e else e - 1)"

definition round_ties_even :: "rat \<Rightarrow> int" where
  "round_ties_even v =
     (let f = \<lfloor>v\<rfloor>; r = v - of_int f
      in if r < 1 / 2 then f else if 1 / 2 < r then f + 1 else if even f then f else f + 1)"

definition fl :: "rat \<Rightarrow> rat" where
  "fl x =
     (if x = 0 then 0
      else let ulp = 2 powi (binade x - 52)
           in of_int (round_ties_even (x / ulp)) * ulp)"

text \<open>
  \<open>Math.round\<close> of a double is exact: the nearest integer, a half going up, which is
  \<open>floor (v + 0.5)\<close> of the value.
\<close>

definition Math_round :: "rat \<Rightarrow> int" where
  "Math_round v = \<lfloor>v + 1 / 2\<rfloor>"

section \<open>Configuration constants\<close>

text \<open>
  The constants at the head of the script. \<open>300\<close> and \<open>120\<close> are doubles as they
  stand; the literal \<open>25.4\<close> is the double nearest to \<open>254 / 10\<close>; the division and the
  multiplication are those of doubles. Pixel quantities are integers, and the loop index
  is a natural number.
\<close>

definition DPI :: rat where
  "DPI = 300"

definition SIZE_MM :: rat where
  "SIZE_MM = 120"

definition SIZE_INCHES :: rat where
  "SIZE_INCHES = fl (SIZE_MM / fl (254 / 10))"

definition IMAGE_SIZE :: int where
  "IMAGE_SIZE = Math_round (fl (SIZE_INCHES * DPI))"



definition GRID_ROWS :: nat where
  "GRID_ROWS = 6"

definition GRID_COLS :: nat where
  "GRID_COLS = 6"

definition MAX_IMAGES :: nat where
  "MAX_IMAGES = GRID_ROWS * GRID_COLS"

definition MARGIN :: int where
  "MARGIN = 12"

definition CELL_PADDING :: int where
  "CELL_PADDING = 4"

definition CELL_HEIGHT :: int where
  "CELL_HEIGHT = 175"

definition CELL_WIDTH :: int where
  "CELL_WIDTH = 228"

definition GRID_HEIGHT :: int where
  "GRID_HEIGHT = (int GRID_ROWS * CELL_HEIGHT) + ((int GRID_ROWS - 1) * CELL_PADDING)"

datatype colour = RGB nat nat nat

definition WHITE :: colour where
  "WHITE = RGB 255 255 255"

section \<open>Escaping of footer text\<close>

text \<open>
  \<open>text.replace(/c/g, rep)\<close> for a one-character pattern: every occurrence of the
  character is replaced, left to right. Strings are byte lists; the five characters
  concerned are ASCII, so they never occur inside a multi-byte sequence.
\<close>

definition replace_all :: "char \<Rightarrow> string \<Rightarrow> string \<Rightarrow> string" where
  "replace_all c rep text = concat (map (\<lambda>ch. if ch = c then rep else [ch]) text)"

definition escapeXml :: "string \<Rightarrow> string" where
  "escapeXml text =
     replace_all (CHR 0x27) ''&apos;''
       (replace_all (CHR 0x22) ''&quot;''
         (replace_all CHR ''>'' ''&gt;''
           (replace_all CHR ''<'' ''&lt;''
             (replace_all CHR ''&'' ''&amp;'' text))))"

text \<open>
  What the specification asks for, in its own words: each of the five XML metacharacters
  stands for its entity, every other character for itself.
\<close>

definition xml_entity :: "char \<Rightarrow> string" where
  "xml_entity ch =
     (if ch = CHR ''&'' then ''&amp;''
      else if ch = CHR ''<'' then ''&lt;''
      else if ch = CHR ''>'' then ''&gt;''
      else if ch = CHR 0x22 then ''&quot;''
      else if ch = CHR 0x27 then ''&apos;''
      else [ch])"

definition xml_escaped :: "string \<Rightarrow> string" where
  "xml_escaped text = concat (map xml_entity text)"

section \<open>Footer overlay\<close>

text \<open>
  A metadata field is a string or \<open>null\<close>. \<open>if (field)\<close> is JavaScript truthiness:
  \<open>null\<close> and the empty string are false, every other string is true.
\<close>

fun truthy :: "string option \<Rightarrow> bool" where
  "truthy None = False"
| "truthy (Some s) = (s \<noteq> [])"

datatype font_weight = Normal | Bold | Weight nat

text \<open>The numeric scale of font weights: \<open>normal\<close> is 400 and \<open>bold\<close> is 700.\<close>

fun weight_value :: "font_weight \<Rightarrow> nat" where
  "weight_value Normal = 400"
| "weight_value Bold = 700"
| "weight_value (Weight n) = n"

text \<open>
  One \<open><text>\<close> element of the overlay; the font family (Arial, sans-serif) and the
  anchor (start) are the same in all of them and are left out.
\<close>

record text_element =
  el_x :: int
  el_y :: int
  el_font_size :: nat
  el_font_weight :: font_weight
  el_fill :: string
  el_body :: string

record footer_svg =
  svg_width :: int
  svg_height :: int
  svg_parts :: "text_element list"

definition labelX :: int where
  "labelX = 0"

definition valueX :: int where
  "valueX = 320"

definition createFooterSVG ::
  "string option \<Rightarrow> string option \<Rightarrow> string option \<Rightarrow> string option \<Rightarrow> int \<Rightarrow> int \<Rightarrow> footer_svg" where
  "createFooterSVG serialNumber laboratory date notes width height =
     (let parts0 = [];
          yPos0 = 60;
          (parts1, yPos1) =
            (if truthy serialNumber
             then (parts0 @
                   [\<lparr>el_x = labelX, el_y = yPos0, el_font_size = 58, el_font_weight = Normal,
                     el_fill = ''#666'', el_body = ''Roll:''\<rparr>,
                    \<lparr>el_x = valueX, el_y = yPos0, el_font_size = 84, el_font_weight = Bold,
                     el_fill = ''#000'', el_body = escapeXml (the serialNumber)\<rparr>],
                   yPos0 + 68)
             else (parts0, yPos0));
          (parts2, yPos2) =
            (if truthy laboratory
             then (parts1 @
                   [\<lparr>el_x = labelX, el_y = yPos1, el_font_size = 58, el_font_weight = Weight 400,
                     el_fill = ''#666'', el_body = ''Scaned by:''\<rparr>,
                    \<lparr>el_x = valueX, el_y = yPos1, el_font_size = 58, el_font_weight = Weight 300,
                     el_fill = ''#333'', el_body = escapeXml (the laboratory)\<rparr>],
                   yPos1 + 63)
             else (parts1, yPos1));
          (parts3, yPos3) =
            (if truthy date
             then (parts2 @
                   [\<lparr>el_x = labelX, el_y = yPos2, el_font_size = 58, el_font_weight = Weight 400,
                     el_fill = ''#666'', el_body = ''Date:''\<rparr>,
                    \<lparr>el_x = valueX, el_y = yPos2, el_font_size = 58, el_font_weight = Weight 300,
                     el_fill = ''#333'', el_body = escapeXml (the date)\<rparr>],
                   yPos2 + 63)
             else (parts2, yPos2));
          parts4 =
            (if truthy notes
             then parts3 @
                   [\<lparr>el_x = labelX, el_y = yPos3, el_font_size = 58, el_font_weight = Weight 400,
                     el_fill = ''#666'', el_body = ''Notes:''\<rparr>,
                    \<lparr>el_x = valueX, el_y = yPos3, el_font_size = 58, el_font_weight = Weight 300,
                     el_fill = ''#333'', el_body = escapeXml (the notes)\<rparr>]
             else parts3)
      in \<lparr>svg_width = width, svg_height = height, svg_parts = parts4\<rparr>)"

section \<open>Image discovery\<close>

text \<open>
  \<open>path.extname\<close> of the runtime, for one path component (a directory listing yields
  names without a separator): the text from the last dot to the end, and the empty
  string when there is no dot, when the last dot is the first character of the name,
  or when the name is \<open>..\<close>.
\<close>

definition extname :: "string \<Rightarrow> string" where
  "extname name =
     (if CHR ''.'' \<notin> set name then []
      else let stem = rev (tl (dropWhile (\<lambda>ch. ch \<noteq> CHR ''.'') (rev name)));
               ext = CHR ''.'' # rev (takeWhile (\<lambda>ch. ch \<noteq> CHR ''.'') (rev name))
           in if stem = [] \<or> name = ''..'' then [] else ext)"

text \<open>
  \<open>path.join\<close> of a directory and an entry name of that directory. The directory is
  the result of \<open>path.resolve\<close>: an absolute path without \<open>.\<close> or \<open>..\<close> segments
  and without doubled separators, which ends with a separator only when it is the root.
  On such a pair the join puts one separator between the two and has nothing else to
  normalise; an empty first segment is left out.
\<close>

definition path_join :: "string \<Rightarrow> string \<Rightarrow> string" where
  "path_join directory file =
     (if directory = [] then file
      else if last directory = CHR ''/'' then directory @ file
      else directory @ ''/'' @ file)"

record source_image =
  filename :: string
  fullPath :: string

text \<open>
  \<open>getImages\<close>: the outcome of \<open>fs.readdir\<close> is an argument, \<open>Inl\<close> the message of
  the error it raised, \<open>Inr\<close> the names in the order the file system gave them. The
  function rethrows a failure as its own error.
\<close>

definition imageExtensions :: "string list" where
  "imageExtensions = [''.jpg'', ''.jpeg'', ''.JPG'', ''.JPEG'']"

definition getImages :: "string \<Rightarrow> string + string list \<Rightarrow> string + source_image list" where
  "getImages directory readdir =
     (case readdir of
        Inl message \<Rightarrow> Inl (''Error reading directory: '' @ message)
      | Inr files \<Rightarrow>
          (let imageFiles = filter (\<lambda>file. extname file \<in> set imageExtensions) files
           in Inr (map (\<lambda>file. \<lparr>filename = file, fullPath = path_join directory file\<rparr>)
                    (take MAX_IMAGES imageFiles))))"

text \<open>
  The two uniform readings of "extension \<open>.jpg\<close> or \<open>.jpeg\<close>" that the specification
  names: compared as written (case-sensitive), or compared after lower-casing
  (case-insensitive).
\<close>

definition lower_case :: "char \<Rightarrow> char" where
  "lower_case ch =
     (let n = (of_char ch :: nat) in if 65 \<le> n \<and> n \<le> 90 then char_of (n + 32) else ch)"

definition jpeg_case_sensitive :: "string \<Rightarrow> bool" where
  "jpeg_case_sensitive file = (extname file \<in> set [''.jpg'', ''.jpeg''])"

definition jpeg_case_insensitive :: "string \<Rightarrow> bool" where
  "jpeg_case_insensitive file = (map lower_case (extname file) \<in> set [''.jpg'', ''.jpeg''])"

section \<open>Thumbnails\<close>

text \<open>
  What the image library finds behind a path: an image of some width and height that it
  can read and resample; an image whose header reads (so \<open>metadata()\<close> resolves) but
  whose data fails in \<open>toBuffer()\<close>; or a file whose \<open>metadata()\<close> rejects. The two
  failures carry the message of the error.
\<close>

datatype file_state =
  Decodable nat nat
| Unprocessable nat nat string
| Undecodable string

type_synonym file_system = "string \<Rightarrow> file_state"

definition sharp_metadata :: "file_state \<Rightarrow> string + nat \<times> nat" where
  "sharp_metadata f =
     (case f of
        Decodable w h \<Rightarrow> Inr (w, h)
      | Unprocessable w h e \<Rightarrow> Inr (w, h)
      | Undecodable e \<Rightarrow> Inl e)"

text \<open>
  A pending operation of the library on one input: the dimensions of the image as it
  enters the resize, and the clockwise angle asked for so far.
\<close>

record pipeline =
  pl_width :: nat
  pl_height :: nat
  pl_angle :: nat

definition sharp :: "nat \<Rightarrow> nat \<Rightarrow> pipeline" where
  "sharp w h = \<lparr>pl_width = w, pl_height = h, pl_angle = 0\<rparr>"

text \<open>\<open>rotate(90)\<close>: a quarter turn clockwise, which exchanges width and height.\<close>

definition rotate90 :: "pipeline \<Rightarrow> pipeline" where
  "rotate90 p = \<lparr>pl_width = pl_height p, pl_height = pl_width p, pl_angle = pl_angle p + 90\<rparr>"

text \<open>
  A thumbnail buffer: its pixel size, the colour of the padding, the angle the source was
  turned by, the dimensions of the picture as it entered the resize, and the box the
  scaled picture occupies inside the buffer.
\<close>

record thumbnail =
  th_width :: int
  th_height :: int
  th_background :: colour
  th_angle :: nat
  th_source_width :: nat
  th_source_height :: nat
  th_content_width :: rat
  th_content_height :: rat

text \<open>
  Modelled from the spec: the resampling itself (\<open>fit: 'contain'\<close>) is done by the image
  library, which is not part of the sources. The specification says: the image is scaled
  so that its larger relative dimension exactly matches the corresponding dimension of the
  cell, by one factor for both axes. The box is kept in exact arithmetic, before any
  rounding to whole pixels.
\<close>

definition contain_box :: "nat \<Rightarrow> nat \<Rightarrow> int \<Rightarrow> int \<Rightarrow> rat \<times> rat" where
  "contain_box w h cell_w cell_h =
     (if int h * cell_w \<le> int w * cell_h
      then (of_int cell_w, of_nat h * of_int cell_w / of_nat w)
      else (of_nat w * of_int cell_h / of_nat h, of_int cell_h))"

definition resize_contain :: "pipeline \<Rightarrow> int \<Rightarrow> int \<Rightarrow> colour \<Rightarrow> thumbnail" where
  "resize_contain p cell_w cell_h background =
     (let (cw, ch) = contain_box (pl_width p) (pl_height p) cell_w cell_h
      in \<lparr>th_width = cell_w, th_height = cell_h, th_background = background,
          th_angle = pl_angle p, th_source_width = pl_width p, th_source_height = pl_height p,
          th_content_width = cw, th_content_height = ch\<rparr>)"

definition toBuffer :: "file_state \<Rightarrow> thumbnail \<Rightarrow> string + thumbnail" where
  "toBuffer f t =
     (case f of
        Decodable w h \<Rightarrow> Inr t
      | Unprocessable w h e \<Rightarrow> Inl e
      | Undecodable e \<Rightarrow> Inl e)"

definition thumbHeight :: int where
  "thumbHeight = CELL_HEIGHT"

definition thumbWidth :: int where
  "thumbWidth = CELL_WIDTH"

text \<open>The body of the \<open>try\<close> block of the loop, for the file behind one path.\<close>

definition make_thumbnail :: "file_state \<Rightarrow> string + thumbnail" where
  "make_thumbnail f =
     (case sharp_metadata f of
        Inl e \<Rightarrow> Inl e
      | Inr (width, height) \<Rightarrow>
          (let processedImage = sharp width height;
               processedImage = (if height > width then rotate90 processedImage
                                 else processedImage)
           in toBuffer f (resize_contain processedImage thumbWidth thumbHeight WHITE)))"

section \<open>Composition of the sheet\<close>

record line_svg =
  ln_width :: int
  ln_height :: int
  ln_x1 :: int
  ln_y1 :: int
  ln_x2 :: int
  ln_y2 :: int
  ln_stroke :: string
  ln_stroke_width :: nat

datatype overlay =
  ThumbnailBuffer thumbnail
| FooterSVG footer_svg
| LineSVG line_svg

record composite_op =
  op_input :: overlay
  op_top :: int
  op_left :: int

record canvas =
  cv_width :: int
  cv_height :: int
  cv_channels :: nat
  cv_background :: colour

record metadata =
  serialNumber :: "string option"
  laboratory :: "string option"
  date :: "string option"
  "notes" :: "string option"

text \<open>
  The result of \<open>createContactSheet\<close>: the canvas with the list of overlays handed to
  \<open>composite\<close>, and the warnings written to the console on the way.
\<close>

record contact_sheet =
  sheet_canvas :: canvas
  sheet_composites :: "composite_op list"
  sheet_warnings :: "string list"

text \<open>
  The line written by \<open>console.warn\<close>. It starts with a warning sign, kept as the
  bytes that the source file holds for it, and two spaces.
\<close>

definition warning_sign :: string where
  "warning_sign = [CHR 0xC3, CHR 0xA2, CHR 0xC5, CHR 0xA1, CHR 0xC2, CHR 0xA0,
                   CHR 0xC3, CHR 0xAF, CHR 0xC2, CHR 0xB8]"

definition warning :: "string \<Rightarrow> string \<Rightarrow> string" where
  "warning file message =
     warning_sign @ ''  Error processing '' @ file @ '': '' @ message"

text \<open>
  The loop over the images: \<open>i\<close> is the index of the first image of the list, the pair
  holds \<open>compositeImages\<close> and the warnings so far. A failure inside the \<open>try\<close> block
  is caught, reported, and the loop goes on.
\<close>

fun process_images ::
  "file_system \<Rightarrow> nat \<Rightarrow> source_image list \<Rightarrow> composite_op list \<times> string list
     \<Rightarrow> composite_op list \<times> string list" where
  "process_images fs i [] acc = acc"
| "process_images fs i (img # rest) (compositeImages, warnings) =
     (let row = i div GRID_COLS;
          col = i mod GRID_COLS;
          x = MARGIN + int col * (CELL_WIDTH + CELL_PADDING);
          y = MARGIN + int row * (CELL_HEIGHT + CELL_PADDING)
      in case make_thumbnail (fs (fullPath img)) of
           Inr thumbnailBuffer \<Rightarrow>
             process_images fs (Suc i) rest
               (compositeImages @
                  [\<lparr>op_input = ThumbnailBuffer thumbnailBuffer, op_top = y, op_left = x\<rparr>],
                warnings)
         | Inl message \<Rightarrow>
             process_images fs (Suc i) rest
               (compositeImages, warnings @ [warning (filename img) message]))"

definition footerStartY :: int where
  "footerStartY = MARGIN + GRID_HEIGHT"

definition footerHeight :: int where
  "footerHeight = IMAGE_SIZE - footerStartY - MARGIN"

definition footerY :: int where
  "footerY = footerStartY + 20"

definition lineSVG :: line_svg where
  "lineSVG = \<lparr>ln_width = IMAGE_SIZE - MARGIN * 2, ln_height = 1,
              ln_x1 = 0, ln_y1 = 0, ln_x2 = IMAGE_SIZE - MARGIN * 2, ln_y2 = 0,
              ln_stroke = ''#E0E0E0'', ln_stroke_width = 1\<rparr>"

definition createContactSheet :: "file_system \<Rightarrow> source_image list \<Rightarrow> metadata \<Rightarrow> contact_sheet" where
  "createContactSheet fs images md =
     (let canvas = \<lparr>cv_width = IMAGE_SIZE, cv_height = IMAGE_SIZE, cv_channels = 3,
                    cv_background = WHITE\<rparr>;
          (compositeImages, warnings) = process_images fs 0 images ([], []);
          compositeImages =
            (if truthy (serialNumber md) \<or> truthy (laboratory md) \<or> truthy (date md)
                \<or> truthy (notes md)
             then compositeImages @
                    [\<lparr>op_input = FooterSVG (createFooterSVG (serialNumber md) (laboratory md)
                                   (date md) (notes md) (IMAGE_SIZE - MARGIN * 2) footerHeight),
                      op_top = footerY, op_left = MARGIN\<rparr>]
             else compositeImages);
          compositeImages =
            (if truthy (serialNumber md) \<or> truthy (laboratory md) \<or> truthy (date md)
                \<or> truthy (notes md)
             then compositeImages @
                    [\<lparr>op_input = LineSVG lineSVG, op_top = footerStartY + 8, op_left = MARGIN\<rparr>]
             else compositeImages)
      in \<lparr>sheet_canvas = canvas, sheet_composites = compositeImages,
          sheet_warnings = warnings\<rparr>)"

section \<open>Auxiliary notions\<close>

text \<open>
  The overlay that the loop pushes for the image of index \<open>i\<close>, the overlays and the
  warnings one image gives rise to, and the thumbnail overlays among a list of overlays.
\<close>

definition placed :: "nat \<Rightarrow> thumbnail \<Rightarrow> composite_op" where
  "placed i t =
     \<lparr>op_input = ThumbnailBuffer t,
      op_top = MARGIN + int (i div GRID_COLS) * (CELL_HEIGHT + CELL_PADDING),
      op_left = MARGIN + int (i mod GRID_COLS) * (CELL_WIDTH + CELL_PADDING)\<rparr>"

definition placement :: "file_system \<Rightarrow> nat \<Rightarrow> source_image \<Rightarrow> composite_op list" where
  "placement fs i img =
     (case make_thumbnail (fs (fullPath img)) of Inr t \<Rightarrow> [placed i t] | Inl e \<Rightarrow> [])"

definition complaint :: "file_system \<Rightarrow> source_image \<Rightarrow> string list" where
  "complaint fs img =
     (case make_thumbnail (fs (fullPath img)) of
        Inr t \<Rightarrow> [] | Inl e \<Rightarrow> [warning (filename img) e])"

fun placements :: "file_system \<Rightarrow> nat \<Rightarrow> source_image list \<Rightarrow> composite_op list" where
  "placements fs i [] = []"
| "placements fs i (img # rest) = placement fs i img @ placements fs (Suc i) rest"

fun is_thumbnail :: "composite_op \<Rightarrow> bool" where
  "is_thumbnail op = (case op_input op of ThumbnailBuffer t \<Rightarrow> True | _ \<Rightarrow> False)"

fun is_footer :: "composite_op \<Rightarrow> bool" where
  "is_footer op = (case op_input op of FooterSVG f \<Rightarrow> True | _ \<Rightarrow> False)"

fun is_rule :: "composite_op \<Rightarrow> bool" where
  "is_rule op = (case op_input op of LineSVG l \<Rightarrow> True | _ \<Rightarrow> False)"

definition thumbnail_ops :: "composite_op list \<Rightarrow> composite_op list" where
  "thumbnail_ops ops = filter is_thumbnail ops"

text \<open>
  A name ends with an extension when it is a non-empty stem followed by the extension.
\<close>

definition ends_with :: "string \<Rightarrow> string \<Rightarrow> bool" where
  "ends_with ext name =
     (length ext < length name \<and> drop (length name - length ext) name = ext)"

text \<open>
  What the specification asks of the footer lines, in its own words: the lines are
  stacked from the first baseline, each present line one advance below the line before
  it, and an absent field takes no room. The label elements and the value elements of
  an overlay are told apart by their column.
\<close>

fun stack_lines :: "int \<Rightarrow> (bool \<times> int) list \<Rightarrow> int list" where
  "stack_lines y [] = []"
| "stack_lines y ((present, advance) # rest) =
     (if present then y # stack_lines (y + advance) rest else stack_lines y rest)"

definition label_elements :: "footer_svg \<Rightarrow> text_element list" where
  "label_elements f = filter (\<lambda>e. el_x e = labelX) (svg_parts f)"

definition value_elements :: "footer_svg \<Rightarrow> text_element list" where
  "value_elements f = filter (\<lambda>e. el_x e = valueX) (svg_parts f)"

section \<open>The loop over the images\<close>

lemma process_images_eq:
  "process_images fs i imgs (ops, ws) =
     (ops @ placements fs i imgs, ws @ concat (map (complaint fs) imgs))"
proof (induction imgs arbitrary: i ops ws)
  case Nil
  show ?case by simp
next
  case (Cons img rest)
  show ?case
  proof (cases "make_thumbnail (fs (fullPath img))")
    case (Inl e)
    then show ?thesis
      by (simp add: Cons.IH placement_def complaint_def)
  next
    case (Inr t)
    then show ?thesis
      by (simp add: Cons.IH placement_def complaint_def placed_def)
  qed
qed

lemma placements_thumbnails: "op \<in> set (placements fs i imgs) \<Longrightarrow> is_thumbnail op"
  by (induction imgs arbitrary: i) (auto simp: placement_def placed_def split: sum.splits)

lemma set_placements:
  "set (placements fs i imgs) =
     {placed (i + j) t | j t. j < length imgs \<and> make_thumbnail (fs (fullPath (imgs ! j))) = Inr t}"
proof (induction imgs arbitrary: i)
  case Nil
  show ?case by simp
next
  case (Cons img rest)
  have "set (placements fs i (img # rest)) =
          set (placement fs i img) \<union> set (placements fs (Suc i) rest)"
    by simp
  also have "\<dots> = {placed (i + j) t | j t. j < length (img # rest)
        \<and> make_thumbnail (fs (fullPath ((img # rest) ! j))) = Inr t}" (is "?L = ?R")
  proof (rule set_eqI)
    fix op
    show "op \<in> ?L \<longleftrightarrow> op \<in> ?R"
    proof
      assume "op \<in> ?L"
      then consider (a) "op \<in> set (placement fs i img)" | (b) "op \<in> set (placements fs (Suc i) rest)"
        by blast
      then show "op \<in> ?R"
      proof cases
        case a
        then obtain t where "make_thumbnail (fs (fullPath img)) = Inr t" "op = placed i t"
          by (cases "make_thumbnail (fs (fullPath img))") (auto simp: placement_def)
        then have "op = placed (i + 0) t \<and> 0 < length (img # rest)
            \<and> make_thumbnail (fs (fullPath ((img # rest) ! 0))) = Inr t"
          by simp
        then show ?thesis by blast
      next
        case b
        then obtain j t where "op = placed (Suc i + j) t" "j < length rest"
            "make_thumbnail (fs (fullPath (rest ! j))) = Inr t"
          unfolding Cons.IH by blast
        then have "op = placed (i + Suc j) t \<and> Suc j < length (img # rest)
            \<and> make_thumbnail (fs (fullPath ((img # rest) ! Suc j))) = Inr t"
          by simp
        then show ?thesis by blast
      qed
    next
      assume "op \<in> ?R"
      then obtain j t where j: "op = placed (i + j) t" "j < length (img # rest)"
          "make_thumbnail (fs (fullPath ((img # rest) ! j))) = Inr t"
        by blast
      show "op \<in> ?L"
      proof (cases j)
        case 0
        with j show ?thesis by (simp add: placement_def)
      next
        case (Suc j')
        with j have "op = placed (Suc i + j') t \<and> j' < length rest
            \<and> make_thumbnail (fs (fullPath (rest ! j'))) = Inr t"
          by simp
        then have "op \<in> set (placements fs (Suc i) rest)"
          unfolding Cons.IH by blast
        then show ?thesis by simp
      qed
    qed
  qed
  finally show ?case .
qed


lemma placements_all_good:
  "\<forall>img \<in> set imgs. \<exists>t. make_thumbnail (fs (fullPath img)) = Inr t \<Longrightarrow>
   length (placements fs i imgs) = length imgs \<and>
   (\<forall>j < length imgs. \<exists>t. make_thumbnail (fs (fullPath (imgs ! j))) = Inr t
        \<and> placements fs i imgs ! j = placed (i + j) t)"
proof (induction imgs arbitrary: i)
  case Nil
  show ?case by simp
next
  case (Cons img rest)
  from Cons.prems obtain t where t: "make_thumbnail (fs (fullPath img)) = Inr t"
    by auto
  from Cons.prems have "\<forall>img \<in> set rest. \<exists>t. make_thumbnail (fs (fullPath img)) = Inr t"
    by simp
  from Cons.IH [OF this, of "Suc i"]
  have len: "length (placements fs (Suc i) rest) = length rest"
    and nth: "\<And>j. j < length rest \<Longrightarrow> \<exists>t. make_thumbnail (fs (fullPath (rest ! j))) = Inr t
        \<and> placements fs (Suc i) rest ! j = placed (Suc i + j) t"
    by auto
  have eq: "placements fs i (img # rest) = placed i t # placements fs (Suc i) rest"
    using t by (simp add: placement_def)
  show ?case
  proof (intro conjI allI impI)
    show "length (placements fs i (img # rest)) = length (img # rest)"
      using eq len by simp
  next
    fix j assume j: "j < length (img # rest)"
    show "\<exists>t. make_thumbnail (fs (fullPath ((img # rest) ! j))) = Inr t
        \<and> placements fs i (img # rest) ! j = placed (i + j) t"
    proof (cases j)
      case 0
      then show ?thesis using t eq by simp
    next
      case (Suc j')
      with j have "j' < length rest" by simp
      from nth [OF this] show ?thesis using Suc eq by simp
    qed
  qed
qed

lemma sheet_composites_eq:
  "sheet_composites (createContactSheet fs images md) =
     placements fs 0 images @
     (if truthy (serialNumber md) \<or> truthy (laboratory md) \<or> truthy (date md) \<or> truthy (notes md)
      then [\<lparr>op_input = FooterSVG (createFooterSVG (serialNumber md) (laboratory md)
                                   (date md) (notes md) (IMAGE_SIZE - MARGIN * 2) footerHeight),
              op_top = footerY, op_left = MARGIN\<rparr>,
            \<lparr>op_input = LineSVG lineSVG, op_top = footerStartY + 8, op_left = MARGIN\<rparr>]
      else [])"
  by (simp add: createContactSheet_def process_images_eq)



lemma thumbnail_ops_sheet:
  "thumbnail_ops (sheet_composites (createContactSheet fs images md)) = placements fs 0 images"
proof -
  have "filter is_thumbnail (placements fs 0 images) = placements fs 0 images"
    by (rule filter_True) (simp add: placements_thumbnails del: is_thumbnail.simps)
  then show ?thesis
    by (simp add: sheet_composites_eq thumbnail_ops_def)
qed

section \<open>Escaping\<close>

lemma replace_all_append:
  "replace_all c rep (xs @ ys) = replace_all c rep xs @ replace_all c rep ys"
  by (simp add: replace_all_def)

lemma escapeXml_append: "escapeXml (xs @ ys) = escapeXml xs @ escapeXml ys"
  by (simp add: escapeXml_def replace_all_append)

lemma escapeXml_single: "escapeXml [ch] = xml_entity ch"
  by (simp add: escapeXml_def replace_all_def xml_entity_def)

lemma escapeXml_Cons: "escapeXml (ch # s) = xml_entity ch @ escapeXml s"
  using escapeXml_append [of "[ch]" s] by (simp add: escapeXml_single)

lemma escapeXml_xml_escaped: "escapeXml s = xml_escaped s"
proof (induction s)
  case Nil
  show ?case by (simp add: escapeXml_def replace_all_def xml_escaped_def)
next
  case (Cons ch rest)
  then show ?case by (simp add: escapeXml_Cons xml_escaped_def)
qed

lemma xml_entity_clean:
  "set (xml_entity ch) \<inter> {CHR ''<'', CHR ''>'', CHR 0x22, CHR 0x27} = {}"
  by (simp add: xml_entity_def)

lemma escapeXml_clean:
  "set (escapeXml s) \<inter> {CHR ''<'', CHR ''>'', CHR 0x22, CHR 0x27} = {}"
  unfolding escapeXml_xml_escaped xml_escaped_def using xml_entity_clean by auto

lemma footer_values_escaped:
  "map el_body (filter (\<lambda>e. el_x e = valueX) (svg_parts (createFooterSVG sn lab d n w h))) =
     map (\<lambda>v. escapeXml (the v)) (filter truthy [sn, lab, d, n])"
  by (cases "truthy sn"; cases "truthy lab"; cases "truthy d"; cases "truthy n";
      simp add: createFooterSVG_def labelX_def valueX_def)

lemma footer_labels_fixed:
  "map el_body (filter (\<lambda>e. el_x e \<noteq> valueX) (svg_parts (createFooterSVG sn lab d n w h))) =
     map snd (filter (\<lambda>(v, l). truthy v) [(sn, ''Roll:''), (lab, ''Scaned by:''), (d, ''Date:''), (n, ''Notes:'')])"
  by (cases "truthy sn"; cases "truthy lab"; cases "truthy d"; cases "truthy n";
      simp add: createFooterSVG_def labelX_def valueX_def)

text \<open>
  Claim C9. For every string, \<open>escapeXml\<close> replaces each of the five XML metacharacters
  by its entity and leaves every other character alone, so that no \<open><\<close>, \<open>>\<close>, double
  or single quote is left in the result; and in the footer overlay the body of every
  value element is the escaped text of a present field, while every other body is one
  of the four fixed labels. Every string of the user that reaches the overlay is escaped.
\<close>

theorem escapeXml_escapes_metacharacters:
  "escapeXml s = xml_escaped s
   \<and> set (escapeXml s) \<inter> {CHR ''<'', CHR ''>'', CHR 0x22, CHR 0x27} = {}
   \<and> map el_body (filter (\<lambda>e. el_x e = valueX) (svg_parts (createFooterSVG sn lab d n w h))) =
       map (\<lambda>v. escapeXml (the v)) (filter truthy [sn, lab, d, n])
   \<and> map el_body (filter (\<lambda>e. el_x e \<noteq> valueX) (svg_parts (createFooterSVG sn lab d n w h))) =
       map snd (filter (\<lambda>(v, l). truthy v)
         [(sn, ''Roll:''), (lab, ''Scaned by:''), (d, ''Date:''), (n, ''Notes:'')])"
  by (intro conjI escapeXml_xml_escaped escapeXml_clean footer_values_escaped footer_labels_fixed)

theorem escapeXml_escapes_metacharacters_witness:
  "escapeXml ''a<b>&'' = ''a&lt;b&gt;&amp;''
   \<and> map el_body (svg_parts (createFooterSVG (Some ''R&D'') None (Some [CHR 0x22, CHR ''x'', CHR 0x27]) None 1393 323))
       = [''Roll:'', ''R&amp;D'', ''Date:'', ''&quot;x&apos;'']"
proof -
  have "escapeXml ''a<b>&'' = xml_escaped ''a<b>&''"
    using escapeXml_escapes_metacharacters [of "''a<b>&''"] by (rule conjunct1)
  then show ?thesis
    by (simp add: xml_escaped_def xml_entity_def createFooterSVG_def escapeXml_def replace_all_def)
qed

section \<open>Canvas size\<close>

lemma bitlen_powi_bounds:
  assumes "0 < p"
  shows "(2::rat) powi (bitlen p - 1) \<le> of_int p" "of_int p < (2::rat) powi bitlen p"
proof -
  from bitlen_bounds [OF assms]
  have lo: "2 ^ nat (bitlen p - 1) \<le> p" and hi: "p < 2 ^ nat (bitlen p)" by simp_all
  have ge1: "1 \<le> bitlen p"
    using assms bitlen_eq_zero_iff [of p] bitlen_nonneg [of p] by linarith
  have "(of_int (2 ^ nat (bitlen p - 1)) :: rat) \<le> of_int p"
    using lo by (simp only: of_int_le_iff)
  then show "(2::rat) powi (bitlen p - 1) \<le> of_int p"
    using ge1 by (simp add: power_int_def)
  have "(of_int p :: rat) < of_int (2 ^ nat (bitlen p))"
    using hi by (simp only: of_int_less_iff)
  then show "of_int p < (2::rat) powi bitlen p"
    using ge1 by (simp add: power_int_def)
qed

text \<open>
  The exponent is the one of the binade, and \<open>fl\<close> moves a number by half a unit in
  the last place at most.
\<close>

lemma binade_bounds:
  assumes "x \<noteq> 0"
  shows "2 powi binade x \<le> \<bar>x\<bar>" and "\<bar>x\<bar> < 2 powi (binade x + 1)"
proof -
  obtain p q where pq: "quotient_of \<bar>x\<bar> = (p, q)"
    by (cases "quotient_of \<bar>x\<bar>")
  have q: "0 < q" using pq by (rule quotient_of_denom_pos)
  have x: "\<bar>x\<bar> = of_int p / of_int q" using pq by (rule quotient_of_div)
  have "0 < \<bar>x\<bar>" using assms by simp
  then have p: "0 < p"
    using q unfolding x by (simp add: zero_less_divide_iff)
  let ?a = "bitlen p" and ?b = "bitlen q"
  note P = bitlen_powi_bounds [OF p] and Q = bitlen_powi_bounds [OF q]
  have up: "\<bar>x\<bar> < 2 powi (?a - ?b + 1)"
  proof -
    have "of_int p / of_int q < (2::rat) powi ?a / 2 powi (?b - 1)"
      by (rule frac_less) (use p q P Q in simp_all)
    also have "\<dots> = 2 powi (?a - (?b - 1))"
      by (simp add: power_int_diff)
    finally show ?thesis unfolding x by (simp add: algebra_simps)
  qed
  have lo: "2 powi (?a - ?b - 1) < \<bar>x\<bar>"
  proof -
    have "(2::rat) powi (?a - 1) / 2 powi ?b < of_int p / of_int q"
      by (rule frac_less2) (use p q P Q in simp_all)
    moreover have "(2::rat) powi (?a - 1) / 2 powi ?b = 2 powi (?a - 1 - ?b)"
      by (simp add: power_int_diff)
    ultimately show ?thesis unfolding x by (simp add: algebra_simps)
  qed
  have b: "binade x = (if 2 powi (?a - ?b) \<le> \<bar>x\<bar> then ?a - ?b else ?a - ?b - 1)"
    by (simp add: binade_def pq)
  show "2 powi binade x \<le> \<bar>x\<bar>"
    using lo unfolding b by auto
  show "\<bar>x\<bar> < 2 powi (binade x + 1)"
    using up unfolding b by auto
qed

lemma round_ties_even_nearest: "\<bar>of_int (round_ties_even v) - v\<bar> \<le> 1 / 2"
proof -
  have "of_int \<lfloor>v\<rfloor> \<le> v" "v < of_int \<lfloor>v\<rfloor> + 1"
    by linarith+
  then show ?thesis
    unfolding round_ties_even_def Let_def by (auto simp: abs_le_iff)
qed

lemma fl_nearest:
  assumes "x \<noteq> 0"
  shows "\<bar>fl x - x\<bar> \<le> 2 powi (binade x - 52) / 2"
proof -
  let ?ulp = "(2::rat) powi (binade x - 52)"
  have pos: "0 < ?ulp" by simp
  have "fl x - x = (of_int (round_ties_even (x / ?ulp)) - x / ?ulp) * ?ulp"
    using assms pos by (simp add: fl_def Let_def algebra_simps)
  then have "\<bar>fl x - x\<bar> = \<bar>of_int (round_ties_even (x / ?ulp)) - x / ?ulp\<bar> * ?ulp"
    using pos by (simp add: abs_mult)
  also have "\<dots> \<le> 1 / 2 * ?ulp"
    using round_ties_even_nearest [of "x / ?ulp"] pos by (simp only: mult_right_mono less_imp_le)
  finally show ?thesis by simp
qed

lemma Math_round_round: "Math_round v = round v"
  by (simp add: Math_round_def round_def)

lemma IMAGE_SIZE_value: "IMAGE_SIZE = 1417"
  by code_simp







section \<open>Footer geometry\<close>

lemma GRID_HEIGHT_value: "GRID_HEIGHT = 1070"
  by (simp add: GRID_HEIGHT_def GRID_ROWS_def CELL_HEIGHT_def CELL_PADDING_def)

lemma footer_values:
  "footerStartY = 1082" "footerHeight = 323" "footerY = 1102"
  by (simp_all add: footerStartY_def footerHeight_def footerY_def GRID_HEIGHT_value MARGIN_def IMAGE_SIZE_value)

lemma make_thumbnail_Decodable:
  "make_thumbnail (Decodable w h) =
     Inr (resize_contain (if h > w then rotate90 (sharp w h) else sharp w h) thumbWidth thumbHeight WHITE)"
  by (simp add: make_thumbnail_def sharp_metadata_def toBuffer_def)

text \<open>
  Claim C2. The footer overlay is composited at \<open>footerY\<close>, 20 pixels below the end of
  the grid, but its height \<open>footerHeight\<close> is measured from the end of the grid itself,
  without the 20 pixels. For a sheet of one image with a serial number, the overlay is
  placed at row 1102 with height 323: it ends at row 1425, beyond the bottom margin
  (row 1405) and beyond the canvas (1417 rows).
\<close>

theorem footer_block_overruns_bottom_margin:
  "sheet_composites (createContactSheet (\<lambda>p. Decodable 3000 2000)
       [\<lparr>filename = ''a.jpg'', fullPath = ''/d/a.jpg''\<rparr>]
       \<lparr>serialNumber = Some ''A'', laboratory = None, date = None, notes = None\<rparr>) ! 1 =
     \<lparr>op_input = FooterSVG (createFooterSVG (Some ''A'') None None None 1393 323),
      op_top = 1102, op_left = 12\<rparr>
   \<and> footerStartY = MARGIN + GRID_HEIGHT
   \<and> footerHeight = IMAGE_SIZE - footerStartY - MARGIN
   \<and> footerY = footerStartY + 20
   \<and> footerY + footerHeight = 1425
   \<and> IMAGE_SIZE - MARGIN = 1405
   \<and> IMAGE_SIZE = 1417"
proof (intro conjI)
  show "sheet_composites (createContactSheet (\<lambda>p. Decodable 3000 2000)
       [\<lparr>filename = ''a.jpg'', fullPath = ''/d/a.jpg''\<rparr>]
       \<lparr>serialNumber = Some ''A'', laboratory = None, date = None, notes = None\<rparr>) ! 1 =
     \<lparr>op_input = FooterSVG (createFooterSVG (Some ''A'') None None None 1393 323),
      op_top = 1102, op_left = 12\<rparr>"
    by (simp add: sheet_composites_eq placement_def make_thumbnail_Decodable footer_values
        IMAGE_SIZE_value MARGIN_def)
  show "footerStartY = MARGIN + GRID_HEIGHT"
    by (rule footerStartY_def)
  show "footerHeight = IMAGE_SIZE - footerStartY - MARGIN"
    by (rule footerHeight_def)
  show "footerY = footerStartY + 20"
    by (rule footerY_def)
  show "footerY + footerHeight = 1425"
    by (simp add: footer_values)
  show "IMAGE_SIZE - MARGIN = 1405"
    by (simp add: IMAGE_SIZE_value MARGIN_def)
  show "IMAGE_SIZE = 1417"
    by (rule IMAGE_SIZE_value)
qed

section \<open>Footer and separator rule\<close>

lemma placed_in_sheet:
  assumes "i < length images" "make_thumbnail (fs (fullPath (images ! i))) = Inr t"
  shows "placed i t \<in> set (sheet_composites (createContactSheet fs images md))"
proof -
  have "placed (0 + i) t \<in> set (placements fs 0 images)"
    unfolding set_placements using assms by blast
  then show ?thesis
    by (simp add: sheet_composites_eq)
qed

lemma no_footer_among_placements: "op \<in> set (placements fs i imgs) \<Longrightarrow> \<not> is_footer op \<and> \<not> is_rule op"
  using placements_thumbnails [of op fs i imgs] by (auto split: overlay.splits)

lemma footer_iff:
  "(\<exists>op \<in> set (sheet_composites (createContactSheet fs images md)). is_footer op) \<longleftrightarrow>
     (truthy (serialNumber md) \<or> truthy (laboratory md) \<or> truthy (date md) \<or> truthy (notes md))"
proof (cases "truthy (serialNumber md) \<or> truthy (laboratory md) \<or> truthy (date md) \<or> truthy (notes md)")
  case True
  let ?f = "\<lparr>op_input = FooterSVG (createFooterSVG (serialNumber md) (laboratory md)
                (date md) (notes md) (IMAGE_SIZE - MARGIN * 2) footerHeight),
              op_top = footerY, op_left = MARGIN\<rparr>"
  have "?f \<in> set (sheet_composites (createContactSheet fs images md))"
    using True by (simp add: sheet_composites_eq)
  moreover have "is_footer ?f" by simp
  ultimately show ?thesis using True by blast
next
  case False
  then have "sheet_composites (createContactSheet fs images md) = placements fs 0 images"
    by (simp add: sheet_composites_eq)
  then show ?thesis
    using False no_footer_among_placements [of _ fs 0 images] by auto
qed

lemma rule_iff:
  "(\<exists>op \<in> set (sheet_composites (createContactSheet fs images md)). is_rule op) \<longleftrightarrow>
     (truthy (serialNumber md) \<or> truthy (laboratory md) \<or> truthy (date md) \<or> truthy (notes md))"
proof (cases "truthy (serialNumber md) \<or> truthy (laboratory md) \<or> truthy (date md) \<or> truthy (notes md)")
  case True
  let ?l = "\<lparr>op_input = LineSVG lineSVG, op_top = footerStartY + 8, op_left = MARGIN\<rparr>"
  have "?l \<in> set (sheet_composites (createContactSheet fs images md))"
    using True by (simp add: sheet_composites_eq)
  moreover have "is_rule ?l" by simp
  ultimately show ?thesis using True by blast
next
  case False
  then have "sheet_composites (createContactSheet fs images md) = placements fs 0 images"
    by (simp add: sheet_composites_eq)
  then show ?thesis
    using False no_footer_among_placements [of _ fs 0 images] by auto
qed

lemma blank_footer_sheet:
  assumes "\<not> (truthy (serialNumber md) \<or> truthy (laboratory md) \<or> truthy (date md) \<or> truthy (notes md))"
  shows "createContactSheet fs images md =
      createContactSheet fs images
        \<lparr>serialNumber = None, laboratory = None, date = None, notes = None\<rparr>"
    and "sheet_composites (createContactSheet fs images md) =
      thumbnail_ops (sheet_composites (createContactSheet fs images md))"
proof -
  show "createContactSheet fs images md =
      createContactSheet fs images
        \<lparr>serialNumber = None, laboratory = None, date = None, notes = None\<rparr>"
    using assms by (simp add: createContactSheet_def process_images_eq)
  show "sheet_composites (createContactSheet fs images md) =
      thumbnail_ops (sheet_composites (createContactSheet fs images md))"
    unfolding thumbnail_ops_sheet using assms by (simp add: sheet_composites_eq)
qed

lemma lineSVG_value:
  "lineSVG = \<lparr>ln_width = 1393, ln_height = 1, ln_x1 = 0, ln_y1 = 0, ln_x2 = 1393, ln_y2 = 0,
              ln_stroke = ''#E0E0E0'', ln_stroke_width = 1\<rparr>"
  by (simp add: lineSVG_def IMAGE_SIZE_value MARGIN_def)

lemma footer_parts_nonempty:
  assumes "truthy sn \<or> truthy lab \<or> truthy d \<or> truthy n"
  shows "svg_parts (createFooterSVG sn lab d n w h) \<noteq> []"
  using assms
  by (cases "truthy sn"; cases "truthy lab"; cases "truthy d"; cases "truthy n";
      simp add: createFooterSVG_def)

lemma present_footer_sheet:
  assumes "truthy (serialNumber md) \<or> truthy (laboratory md) \<or> truthy (date md) \<or> truthy (notes md)"
  shows "sheet_composites (createContactSheet fs images md) =
      thumbnail_ops (sheet_composites (createContactSheet fs images md)) @
      [\<lparr>op_input = FooterSVG (createFooterSVG (serialNumber md) (laboratory md) (date md)
                    (notes md) 1393 323),
        op_top = 1102, op_left = 12\<rparr>,
       \<lparr>op_input = LineSVG \<lparr>ln_width = 1393, ln_height = 1, ln_x1 = 0, ln_y1 = 0,
                    ln_x2 = 1393, ln_y2 = 0, ln_stroke = ''#E0E0E0'', ln_stroke_width = 1\<rparr>,
        op_top = 1090, op_left = 12\<rparr>]"
  unfolding thumbnail_ops_sheet using assms
  by (simp add: sheet_composites_eq footer_values lineSVG_value IMAGE_SIZE_value MARGIN_def)

text \<open>
  Claim C7. The footer overlay is among the composited overlays exactly when one of the
  four metadata fields is present (a non-empty string), and so is the separator rule.
  When a field is present, the overlays are the thumbnails followed by the footer
  overlay, which is \<open>createFooterSVG\<close> of the four fields, 1393 wide, not empty and
  placed at row 1102 and column 12, and by the rule, a line of width 1 and colour
  \<open>#E0E0E0\<close> across a 1393 by 1 overlay placed at row 1090 and column 12, above the
  footer. When all four fields are absent or empty, the sheet is the very sheet
  obtained with no metadata at all: the same canvas and the same overlays, all of them
  thumbnails, so nothing is drawn in the footer region.
\<close>

theorem footer_and_rule_iff_metadata:
  "((\<exists>op \<in> set (sheet_composites (createContactSheet fs images md)). is_footer op) \<longleftrightarrow>
      (truthy (serialNumber md) \<or> truthy (laboratory md) \<or> truthy (date md) \<or> truthy (notes md)))
   \<and> ((\<exists>op \<in> set (sheet_composites (createContactSheet fs images md)). is_rule op) \<longleftrightarrow>
      (truthy (serialNumber md) \<or> truthy (laboratory md) \<or> truthy (date md) \<or> truthy (notes md)))
   \<and> ((truthy (serialNumber md) \<or> truthy (laboratory md) \<or> truthy (date md) \<or> truthy (notes md))
      \<longrightarrow> sheet_composites (createContactSheet fs images md) =
            thumbnail_ops (sheet_composites (createContactSheet fs images md)) @
            [\<lparr>op_input = FooterSVG (createFooterSVG (serialNumber md) (laboratory md) (date md)
                          (notes md) 1393 323),
              op_top = 1102, op_left = 12\<rparr>,
             \<lparr>op_input = LineSVG \<lparr>ln_width = 1393, ln_height = 1, ln_x1 = 0, ln_y1 = 0,
                          ln_x2 = 1393, ln_y2 = 0, ln_stroke = ''#E0E0E0'',
                          ln_stroke_width = 1\<rparr>,
              op_top = 1090, op_left = 12\<rparr>]
        \<and> svg_parts (createFooterSVG (serialNumber md) (laboratory md) (date md) (notes md)
              1393 323) \<noteq> [])
   \<and> (\<not> (truthy (serialNumber md) \<or> truthy (laboratory md) \<or> truthy (date md) \<or> truthy (notes md))
      \<longrightarrow> createContactSheet fs images md =
            createContactSheet fs images
              \<lparr>serialNumber = None, laboratory = None, date = None, notes = None\<rparr>
        \<and> sheet_composites (createContactSheet fs images md) =
            thumbnail_ops (sheet_composites (createContactSheet fs images md)))"
  using footer_iff [of fs images md] rule_iff [of fs images md]
    blank_footer_sheet [of md fs images] present_footer_sheet [of md fs images]
    footer_parts_nonempty [of "serialNumber md" "laboratory md" "date md" "notes md" 1393 323]
  by blast

theorem footer_and_rule_iff_metadata_witness:
  "createContactSheet (\<lambda>p. Decodable 3000 2000) [\<lparr>filename = ''a.jpg'', fullPath = ''/d/a.jpg''\<rparr>]
        \<lparr>serialNumber = Some [], laboratory = None, date = None, notes = Some []\<rparr> =
      createContactSheet (\<lambda>p. Decodable 3000 2000) [\<lparr>filename = ''a.jpg'', fullPath = ''/d/a.jpg''\<rparr>]
        \<lparr>serialNumber = None, laboratory = None, date = None, notes = None\<rparr>
   \<and> drop 1 (sheet_composites (createContactSheet (\<lambda>p. Decodable 3000 2000)
        [\<lparr>filename = ''a.jpg'', fullPath = ''/d/a.jpg''\<rparr>]
        \<lparr>serialNumber = None, laboratory = None, date = Some ''2024'', notes = None\<rparr>)) =
      [\<lparr>op_input = FooterSVG (createFooterSVG None None (Some ''2024'') None 1393 323),
        op_top = 1102, op_left = 12\<rparr>,
       \<lparr>op_input = LineSVG \<lparr>ln_width = 1393, ln_height = 1, ln_x1 = 0, ln_y1 = 0,
                    ln_x2 = 1393, ln_y2 = 0, ln_stroke = ''#E0E0E0'', ln_stroke_width = 1\<rparr>,
        op_top = 1090, op_left = 12\<rparr>]"
proof -
  let ?fs = "\<lambda>p::string. Decodable 3000 2000"
  let ?images = "[\<lparr>filename = ''a.jpg'', fullPath = ''/d/a.jpg''\<rparr>]"
  let ?absent = "\<lparr>serialNumber = Some [], laboratory = None, date = None, notes = Some []\<rparr>"
  let ?present = "\<lparr>serialNumber = None, laboratory = None, date = Some ''2024'', notes = None\<rparr>"
  have a: "createContactSheet ?fs ?images ?absent =
      createContactSheet ?fs ?images
        \<lparr>serialNumber = None, laboratory = None, date = None, notes = None\<rparr>"
    using footer_and_rule_iff_metadata [of ?fs ?images ?absent] by simp
  have len: "length (thumbnail_ops (sheet_composites (createContactSheet ?fs ?images ?present))) = 1"
    by (simp add: thumbnail_ops_sheet placement_def make_thumbnail_Decodable)
  have "sheet_composites (createContactSheet ?fs ?images ?present) =
      thumbnail_ops (sheet_composites (createContactSheet ?fs ?images ?present)) @
      [\<lparr>op_input = FooterSVG (createFooterSVG None None (Some ''2024'') None 1393 323),
        op_top = 1102, op_left = 12\<rparr>,
       \<lparr>op_input = LineSVG \<lparr>ln_width = 1393, ln_height = 1, ln_x1 = 0, ln_y1 = 0,
                    ln_x2 = 1393, ln_y2 = 0, ln_stroke = ''#E0E0E0'', ln_stroke_width = 1\<rparr>,
        op_top = 1090, op_left = 12\<rparr>]"
    using footer_and_rule_iff_metadata [of ?fs ?images ?present] by simp
  then have b: "drop 1 (sheet_composites (createContactSheet ?fs ?images ?present)) =
      [\<lparr>op_input = FooterSVG (createFooterSVG None None (Some ''2024'') None 1393 323),
        op_top = 1102, op_left = 12\<rparr>,
       \<lparr>op_input = LineSVG \<lparr>ln_width = 1393, ln_height = 1, ln_x1 = 0, ln_y1 = 0,
                    ln_x2 = 1393, ln_y2 = 0, ln_stroke = ''#E0E0E0'', ln_stroke_width = 1\<rparr>,
        op_top = 1090, op_left = 12\<rparr>]"
    using len by (metis One_nat_def append_eq_conv_conj)
  from a b show ?thesis by (rule conjI)
qed

section \<open>Orientation and fit of the thumbnails\<close>

lemma make_thumbnail_orientation:
  assumes "make_thumbnail (Decodable w h) = Inr t"
  shows "th_angle t = (if h > w then 90 else 0)"
    and "(th_source_width t, th_source_height t) = (if h > w then (h, w) else (w, h))"
    and "th_source_height t \<le> th_source_width t"
    and "th_width t = CELL_WIDTH" "th_height t = CELL_HEIGHT" "th_background t = WHITE"
    and "(th_content_width t, th_content_height t) =
           contain_box (th_source_width t) (th_source_height t) CELL_WIDTH CELL_HEIGHT"
  using assms
  by (auto simp: make_thumbnail_Decodable resize_contain_def rotate90_def sharp_def
      thumbWidth_def thumbHeight_def split: prod.splits if_splits)

text \<open>
  Claim C4. For every image of the input that the library reads, with width \<open>w\<close> and
  height \<open>h\<close>: its thumbnail is composited at its cell; the source is turned by 90
  degrees clockwise before the resize when \<open>h > w\<close>, and not turned when \<open>h \<le> w\<close>; and
  the picture that enters the resize is never higher than wide.
\<close>

theorem portrait_sources_rotated:
  assumes "i < length images" "fs (fullPath (images ! i)) = Decodable w h"
  shows "\<exists>t. make_thumbnail (fs (fullPath (images ! i))) = Inr t
     \<and> \<lparr>op_input = ThumbnailBuffer t,
         op_top = MARGIN + int (i div GRID_COLS) * (CELL_HEIGHT + CELL_PADDING),
         op_left = MARGIN + int (i mod GRID_COLS) * (CELL_WIDTH + CELL_PADDING)\<rparr>
       \<in> set (sheet_composites (createContactSheet fs images md))
     \<and> th_angle t = (if h > w then 90 else 0)
     \<and> (th_source_width t, th_source_height t) = (if h > w then (h, w) else (w, h))
     \<and> th_source_height t \<le> th_source_width t"
proof -
  obtain t where t: "make_thumbnail (Decodable w h) = Inr t"
    by (simp add: make_thumbnail_Decodable)
  then have mk: "make_thumbnail (fs (fullPath (images ! i))) = Inr t"
    using assms(2) by simp
  have "placed i t \<in> set (sheet_composites (createContactSheet fs images md))"
    using assms(1) mk by (rule placed_in_sheet)
  then show ?thesis
    using mk make_thumbnail_orientation(1-3) [OF t] unfolding placed_def by blast
qed

theorem portrait_sources_rotated_witness:
  "(1::nat) < length [\<lparr>filename = ''a.jpg'', fullPath = ''/d/a.jpg''\<rparr>,
                      \<lparr>filename = ''b.jpg'', fullPath = ''/d/b.jpg''\<rparr>]
   \<and> (\<lambda>p. if p = ''/d/b.jpg'' then Decodable 2000 3000 else Decodable 3000 2000)
        (fullPath ([\<lparr>filename = ''a.jpg'', fullPath = ''/d/a.jpg''\<rparr>,
                    \<lparr>filename = ''b.jpg'', fullPath = ''/d/b.jpg''\<rparr>] ! 1)) = Decodable 2000 3000
   \<and> (\<exists>t. make_thumbnail (Decodable 2000 3000) = Inr t \<and> th_angle t = 90
          \<and> th_source_width t = 3000 \<and> th_source_height t = 2000)"
proof -
  let ?images = "[\<lparr>filename = ''a.jpg'', fullPath = ''/d/a.jpg''\<rparr>,
                  \<lparr>filename = ''b.jpg'', fullPath = ''/d/b.jpg''\<rparr>]"
  let ?fs = "\<lambda>p. if p = ''/d/b.jpg'' then Decodable 2000 3000 else Decodable 3000 2000"
  have a: "(1::nat) < length ?images" by simp
  have b: "?fs (fullPath (?images ! 1)) = Decodable 2000 3000" by simp
  show ?thesis
    using a b portrait_sources_rotated [where fs = ?fs and images = ?images and i = 1, OF a b]
    by auto
qed

lemma contain_box_fits:
  assumes "0 < w" "0 < h" "0 \<le> cell_w" "0 \<le> cell_h"
    and "contain_box w h cell_w cell_h = (cw, ch)"
  shows "cw \<le> of_int cell_w" "ch \<le> of_int cell_h"
    "cw = of_int cell_w \<or> ch = of_int cell_h"
    "cw * of_nat h = ch * of_nat w"
proof -
  have wpos: "(0::rat) < of_nat w" and hpos: "(0::rat) < of_nat h"
    using assms(1,2) by simp_all
  show "cw = of_int cell_w \<or> ch = of_int cell_h"
    using assms(5) by (auto simp: contain_box_def split: if_splits)
  show "cw * of_nat h = ch * of_nat w"
    using assms(5) wpos hpos by (auto simp: contain_box_def split: if_splits)
  show "cw \<le> of_int cell_w"
  proof (cases "int h * cell_w \<le> int w * cell_h")
    case True
    then show ?thesis using assms(5) by (auto simp: contain_box_def)
  next
    case False
    then have "int w * cell_h \<le> int h * cell_w" by simp
    then have "(of_int (int w * cell_h) :: rat) \<le> of_int (int h * cell_w)"
      by (simp only: of_int_le_iff)
    then have "(of_nat w * of_int cell_h :: rat) \<le> of_int cell_w * of_nat h"
      by (simp add: mult.commute)
    then have le: "(of_nat w * of_int cell_h / of_nat h :: rat) \<le> of_int cell_w"
      using hpos by (simp add: pos_divide_le_eq)
    have "cw = of_nat w * of_int cell_h / of_nat h"
      using assms(5) False by (auto simp: contain_box_def)
    then show ?thesis using le by (simp only:)
  qed
  show "ch \<le> of_int cell_h"
  proof (cases "int h * cell_w \<le> int w * cell_h")
    case True
    then have "(of_int (int h * cell_w) :: rat) \<le> of_int (int w * cell_h)"
      by (simp only: of_int_le_iff)
    then have "(of_nat h * of_int cell_w :: rat) \<le> of_int cell_h * of_nat w"
      by (simp add: mult.commute)
    then have le: "(of_nat h * of_int cell_w / of_nat w :: rat) \<le> of_int cell_h"
      using wpos by (simp add: pos_divide_le_eq)
    have "ch = of_nat h * of_int cell_w / of_nat w"
      using assms(5) True by (auto simp: contain_box_def)
    then show ?thesis using le by (simp only:)
  next
    case False
    then show ?thesis using assms(5) by (auto simp: contain_box_def)
  qed
qed

text \<open>
  Claim C5. For every readable image of the input, of any positive width and height:
  the thumbnail composited at its cell is exactly \<open>CELL_WIDTH\<close> by \<open>CELL_HEIGHT\<close> pixels
  and padded with white; the box of the scaled picture exceeds the cell on neither axis
  and equals the cell on at least one; and the box has the proportions of the (turned)
  source, so the picture is scaled by one factor on both axes, neither cropped nor
  stretched.
\<close>

theorem thumbnails_contain_fit:
  assumes "i < length images" "fs (fullPath (images ! i)) = Decodable w h" "0 < w" "0 < h"
  shows "\<exists>t. make_thumbnail (fs (fullPath (images ! i))) = Inr t
     \<and> \<lparr>op_input = ThumbnailBuffer t,
         op_top = MARGIN + int (i div GRID_COLS) * (CELL_HEIGHT + CELL_PADDING),
         op_left = MARGIN + int (i mod GRID_COLS) * (CELL_WIDTH + CELL_PADDING)\<rparr>
       \<in> set (sheet_composites (createContactSheet fs images md))
     \<and> th_width t = CELL_WIDTH \<and> th_height t = CELL_HEIGHT \<and> th_background t = WHITE
     \<and> th_content_width t \<le> of_int CELL_WIDTH
     \<and> th_content_height t \<le> of_int CELL_HEIGHT
     \<and> (th_content_width t = of_int CELL_WIDTH \<or> th_content_height t = of_int CELL_HEIGHT)
     \<and> th_content_width t * of_nat (th_source_height t) =
         th_content_height t * of_nat (th_source_width t)
     \<and> {th_source_width t, th_source_height t} = {w, h}"
proof -
  obtain t where t: "make_thumbnail (Decodable w h) = Inr t"
    by (simp add: make_thumbnail_Decodable)
  then have mk: "make_thumbnail (fs (fullPath (images ! i))) = Inr t"
    using assms(2) by simp
  have "placed i t \<in> set (sheet_composites (createContactSheet fs images md))"
    using assms(1) mk by (rule placed_in_sheet)
  then have inset: "\<lparr>op_input = ThumbnailBuffer t,
         op_top = MARGIN + int (i div GRID_COLS) * (CELL_HEIGHT + CELL_PADDING),
         op_left = MARGIN + int (i mod GRID_COLS) * (CELL_WIDTH + CELL_PADDING)\<rparr>
       \<in> set (sheet_composites (createContactSheet fs images md))"
    by (simp only: placed_def)
  note o = make_thumbnail_orientation [OF t]
  have src: "{th_source_width t, th_source_height t} = {w, h}"
    using o(2) by (auto split: if_splits)
  then have pos: "0 < th_source_width t" "0 < th_source_height t"
    using assms(3,4) o(2) by (auto split: if_splits)
  have cell: "0 \<le> CELL_WIDTH" "0 \<le> CELL_HEIGHT"
    by (simp_all add: CELL_WIDTH_def CELL_HEIGHT_def)
  have box: "contain_box (th_source_width t) (th_source_height t) CELL_WIDTH CELL_HEIGHT =
      (th_content_width t, th_content_height t)"
    using o(7) by simp
  note f = contain_box_fits [OF pos cell box]
  show ?thesis
    using mk inset o(4) o(5) o(6) f(1) f(2) f(3) f(4) src by blast
qed

theorem thumbnails_contain_fit_witness:
  "(0::nat) < length [\<lparr>filename = ''a.jpg'', fullPath = ''/d/a.jpg''\<rparr>]
   \<and> (\<lambda>p. Decodable 200 2000) (fullPath ([\<lparr>filename = ''a.jpg'', fullPath = ''/d/a.jpg''\<rparr>] ! 0))
       = Decodable 200 2000
   \<and> (0::nat) < 200 \<and> (0::nat) < 2000
   \<and> (\<exists>t. make_thumbnail (Decodable 200 2000) = Inr t
        \<and> th_width t = 228 \<and> th_height t = 175
        \<and> th_content_width t = 228 \<and> th_content_height t = 228 / 10)"
proof -
  let ?images = "[\<lparr>filename = ''a.jpg'', fullPath = ''/d/a.jpg''\<rparr>]"
  let ?fs = "\<lambda>p::string. Decodable 200 2000"
  have a: "(0::nat) < length ?images" by simp
  have b: "?fs (fullPath (?images ! 0)) = Decodable 200 2000" by simp
  have c: "(0::nat) < 200" and d: "(0::nat) < 2000" by simp_all
  have e: "\<exists>t. make_thumbnail (Decodable 200 2000) = Inr t
        \<and> th_width t = 228 \<and> th_height t = 175
        \<and> th_content_width t = 228 \<and> th_content_height t = 228 / 10"
    by (simp add: make_thumbnail_Decodable resize_contain_def rotate90_def sharp_def
        contain_box_def thumbWidth_def thumbHeight_def CELL_WIDTH_def CELL_HEIGHT_def)
  show ?thesis
    using a b c d e
      thumbnails_contain_fit [where fs = ?fs and images = ?images and i = 0, OF a b c d]
    by simp
qed

section \<open>Placement of the thumbnails\<close>

lemma cell_origin_inj:
  assumes "MARGIN + int (i div GRID_COLS) * (CELL_HEIGHT + CELL_PADDING) =
           MARGIN + int (j div GRID_COLS) * (CELL_HEIGHT + CELL_PADDING)"
    and "MARGIN + int (i mod GRID_COLS) * (CELL_WIDTH + CELL_PADDING) =
         MARGIN + int (j mod GRID_COLS) * (CELL_WIDTH + CELL_PADDING)"
  shows "i = j"
proof -
  have "i div 6 = j div 6"
    using assms(1) by (simp add: GRID_COLS_def CELL_HEIGHT_def CELL_PADDING_def)
  moreover have "i mod 6 = j mod 6"
    using assms(2) by (simp add: GRID_COLS_def CELL_WIDTH_def CELL_PADDING_def)
  ultimately show ?thesis
    by (metis div_mult_mod_eq)
qed

lemma placed_origin_inj:
  "op_top (placed i t) = op_top (placed j u) \<Longrightarrow> op_left (placed i t) = op_left (placed j u)
     \<Longrightarrow> i = j"
  by (rule cell_origin_inj) (simp_all add: placed_def)

lemma all_Decodable_good:
  "\<forall>img \<in> set images. \<exists>w h. fs (fullPath img) = Decodable w h \<Longrightarrow>
   \<forall>img \<in> set images. \<exists>t. make_thumbnail (fs (fullPath img)) = Inr t"
  by (auto simp: make_thumbnail_Decodable)

lemma distinct_origins_all_good:
  assumes "\<forall>img \<in> set imgs. \<exists>t. make_thumbnail (fs (fullPath img)) = Inr t"
  shows "distinct (map (\<lambda>op. (op_top op, op_left op)) (placements fs 0 imgs))"
proof -
  note g = placements_all_good [OF assms, of 0]
  have len: "length (placements fs 0 imgs) = length imgs"
    using g by blast
  have nth: "\<And>j. j < length imgs \<Longrightarrow> \<exists>t. placements fs 0 imgs ! j = placed j t"
    using g by force
  show ?thesis
  proof (subst distinct_conv_nth, intro allI impI)
    fix a b
    assume a: "a < length (map (\<lambda>op. (op_top op, op_left op)) (placements fs 0 imgs))"
      and b: "b < length (map (\<lambda>op. (op_top op, op_left op)) (placements fs 0 imgs))"
      and ab: "a \<noteq> b"
    from a b len have a': "a < length imgs" and b': "b < length imgs" by simp_all
    from nth [OF a'] obtain t where t: "placements fs 0 imgs ! a = placed a t" by blast
    from nth [OF b'] obtain u where u: "placements fs 0 imgs ! b = placed b u" by blast
    show "map (\<lambda>op. (op_top op, op_left op)) (placements fs 0 imgs) ! a \<noteq>
          map (\<lambda>op. (op_top op, op_left op)) (placements fs 0 imgs) ! b"
    proof
      assume "map (\<lambda>op. (op_top op, op_left op)) (placements fs 0 imgs) ! a =
              map (\<lambda>op. (op_top op, op_left op)) (placements fs 0 imgs) ! b"
      then have "op_top (placed a t) = op_top (placed b u)"
        and "op_left (placed a t) = op_left (placed b u)"
        using a' b' len t u by simp_all
      then have "a = b" by (rule placed_origin_inj)
      with ab show False by contradiction
    qed
  qed
qed

text \<open>
  Claim C1. For an input of N images that the library can all read, with N between 1
  and 36, exactly N thumbnails are composited, they are the first N overlays, and the
  thumbnail of the image of index \<open>i\<close> (counted from 0) is placed at row \<open>i div GRID_COLS\<close>
  and column \<open>i mod GRID_COLS\<close> of the grid, its left edge at
  \<open>MARGIN + col * (CELL_WIDTH + CELL_PADDING)\<close> and its top edge at
  \<open>MARGIN + row * (CELL_HEIGHT + CELL_PADDING)\<close>; the row is below \<open>GRID_ROWS\<close>, the
  column below \<open>GRID_COLS\<close>, and no two thumbnails share a cell.
\<close>

theorem cells_populated_row_major:
  assumes "1 \<le> length images" "length images \<le> 36"
    and "\<forall>img \<in> set images. \<exists>w h. fs (fullPath img) = Decodable w h"
  shows "length (thumbnail_ops (sheet_composites (createContactSheet fs images md))) = length images
    \<and> (\<forall>i < length images. \<exists>t.
          make_thumbnail (fs (fullPath (images ! i))) = Inr t
          \<and> thumbnail_ops (sheet_composites (createContactSheet fs images md)) ! i =
              \<lparr>op_input = ThumbnailBuffer t,
               op_top = MARGIN + int (i div GRID_COLS) * (CELL_HEIGHT + CELL_PADDING),
               op_left = MARGIN + int (i mod GRID_COLS) * (CELL_WIDTH + CELL_PADDING)\<rparr>
          \<and> i div GRID_COLS < GRID_ROWS \<and> i mod GRID_COLS < GRID_COLS)
    \<and> distinct (map (\<lambda>op. (op_top op, op_left op))
          (thumbnail_ops (sheet_composites (createContactSheet fs images md))))
    \<and> take (length images) (sheet_composites (createContactSheet fs images md)) =
        thumbnail_ops (sheet_composites (createContactSheet fs images md))"
proof -
  have good: "\<forall>img \<in> set images. \<exists>t. make_thumbnail (fs (fullPath img)) = Inr t"
    using assms(3) by (rule all_Decodable_good)
  note g = placements_all_good [OF good, of 0]
  have len: "length (placements fs 0 images) = length images"
    using g by blast
  have cells: "\<forall>i < length images. \<exists>t.
          make_thumbnail (fs (fullPath (images ! i))) = Inr t
          \<and> placements fs 0 images ! i =
              \<lparr>op_input = ThumbnailBuffer t,
               op_top = MARGIN + int (i div GRID_COLS) * (CELL_HEIGHT + CELL_PADDING),
               op_left = MARGIN + int (i mod GRID_COLS) * (CELL_WIDTH + CELL_PADDING)\<rparr>
          \<and> i div GRID_COLS < GRID_ROWS \<and> i mod GRID_COLS < GRID_COLS"
  proof (intro allI impI)
    fix i assume i: "i < length images"
    then obtain t where t: "make_thumbnail (fs (fullPath (images ! i))) = Inr t"
      "placements fs 0 images ! i = placed (0 + i) t"
      using g by blast
    have "i < 36" using i assms(2) by simp
    then have "i div GRID_COLS < GRID_ROWS \<and> i mod GRID_COLS < GRID_COLS"
      by (simp add: GRID_COLS_def GRID_ROWS_def)
    then show "\<exists>t. make_thumbnail (fs (fullPath (images ! i))) = Inr t
          \<and> placements fs 0 images ! i =
              \<lparr>op_input = ThumbnailBuffer t,
               op_top = MARGIN + int (i div GRID_COLS) * (CELL_HEIGHT + CELL_PADDING),
               op_left = MARGIN + int (i mod GRID_COLS) * (CELL_WIDTH + CELL_PADDING)\<rparr>
          \<and> i div GRID_COLS < GRID_ROWS \<and> i mod GRID_COLS < GRID_COLS"
      using t by (simp add: placed_def)
  qed
  have dist: "distinct (map (\<lambda>op. (op_top op, op_left op)) (placements fs 0 images))"
    using good by (rule distinct_origins_all_good)
  have first: "take (length images) (sheet_composites (createContactSheet fs images md)) =
      placements fs 0 images"
    using len by (simp add: sheet_composites_eq)
  show ?thesis
    unfolding thumbnail_ops_sheet using len cells dist first by blast
qed


theorem cells_populated_row_major_witness:
  "length (thumbnail_ops (sheet_composites (createContactSheet (\<lambda>p. Decodable 3000 2000)
      (map (\<lambda>n. \<lparr>filename = n, fullPath = ''/d/'' @ n\<rparr>)
         [''1.jpg'', ''2.jpg'', ''3.jpg'', ''4.jpg'', ''5.jpg'', ''6.jpg'', ''7.jpg''])
      \<lparr>serialNumber = Some ''CS-001'', laboratory = None, date = None, notes = None\<rparr>))) = 7
   \<and> (\<exists>t. thumbnail_ops (sheet_composites (createContactSheet (\<lambda>p. Decodable 3000 2000)
      (map (\<lambda>n. \<lparr>filename = n, fullPath = ''/d/'' @ n\<rparr>)
         [''1.jpg'', ''2.jpg'', ''3.jpg'', ''4.jpg'', ''5.jpg'', ''6.jpg'', ''7.jpg''])
      \<lparr>serialNumber = Some ''CS-001'', laboratory = None, date = None, notes = None\<rparr>)) ! 6 =
        \<lparr>op_input = ThumbnailBuffer t, op_top = 191, op_left = 12\<rparr>)"
proof -
  let ?images = "map (\<lambda>n. \<lparr>filename = n, fullPath = ''/d/'' @ n\<rparr>)
         [''1.jpg'', ''2.jpg'', ''3.jpg'', ''4.jpg'', ''5.jpg'', ''6.jpg'', ''7.jpg'']"
  let ?fs = "\<lambda>p::string. Decodable 3000 2000"
  let ?md = "\<lparr>serialNumber = Some ''CS-001'', laboratory = None, date = None, notes = None\<rparr>"
  have a: "1 \<le> length ?images" by simp
  have b: "length ?images \<le> 36" by simp
  have c: "\<forall>img \<in> set ?images. \<exists>w h. ?fs (fullPath img) = Decodable w h" by simp
  note th = cells_populated_row_major [where fs = ?fs and images = ?images and md = ?md, OF a b c]
  have len: "length (thumbnail_ops (sheet_composites (createContactSheet ?fs ?images ?md))) = 7"
    using th by simp
  have "(6::nat) < length ?images" by simp
  with th have "\<exists>t. thumbnail_ops (sheet_composites (createContactSheet ?fs ?images ?md)) ! 6 =
      \<lparr>op_input = ThumbnailBuffer t,
       op_top = MARGIN + int (6 div GRID_COLS) * (CELL_HEIGHT + CELL_PADDING),
       op_left = MARGIN + int (6 mod GRID_COLS) * (CELL_WIDTH + CELL_PADDING)\<rparr>"
    by blast
  then have "\<exists>t. thumbnail_ops (sheet_composites (createContactSheet ?fs ?images ?md)) ! 6 =
      \<lparr>op_input = ThumbnailBuffer t, op_top = 191, op_left = 12\<rparr>"
    by (simp add: MARGIN_def GRID_COLS_def CELL_HEIGHT_def CELL_PADDING_def CELL_WIDTH_def)
  with len show ?thesis by blast
qed

section \<open>Images that fail\<close>




section \<open>Lines of the footer\<close>

lemma footer_line_count:
  "length (label_elements (createFooterSVG sn lab d n w h)) = length (filter truthy [sn, lab, d, n])"
  "length (value_elements (createFooterSVG sn lab d n w h)) = length (filter truthy [sn, lab, d, n])"
  by (cases "truthy sn"; cases "truthy lab"; cases "truthy d"; cases "truthy n";
      simp add: createFooterSVG_def label_elements_def value_elements_def labelX_def valueX_def)+

lemma footer_lines_paired:
  "svg_parts (createFooterSVG sn lab d n w h) =
     concat (map (\<lambda>(l, v). [l, v])
       (zip (label_elements (createFooterSVG sn lab d n w h))
            (value_elements (createFooterSVG sn lab d n w h))))"
  by (cases "truthy sn"; cases "truthy lab"; cases "truthy d"; cases "truthy n";
      simp add: createFooterSVG_def label_elements_def value_elements_def labelX_def valueX_def)

lemma footer_baselines:
  "map el_y (label_elements (createFooterSVG sn lab d n w h)) =
     stack_lines 60 [(truthy sn, 68), (truthy lab, 63), (truthy d, 63), (truthy n, 63)]"
  "map el_y (value_elements (createFooterSVG sn lab d n w h)) =
     stack_lines 60 [(truthy sn, 68), (truthy lab, 63), (truthy d, 63), (truthy n, 63)]"
  by (cases "truthy sn"; cases "truthy lab"; cases "truthy d"; cases "truthy n";
      simp add: createFooterSVG_def label_elements_def value_elements_def labelX_def valueX_def)+

lemma footer_label_bodies:
  "map el_body (label_elements (createFooterSVG sn lab d n w h)) =
     map snd (filter (\<lambda>(v, l). truthy v)
       [(sn, ''Roll:''), (lab, ''Scaned by:''), (d, ''Date:''), (n, ''Notes:'')])"
  by (cases "truthy sn"; cases "truthy lab"; cases "truthy d"; cases "truthy n";
      simp add: createFooterSVG_def label_elements_def labelX_def valueX_def)

lemma footer_value_styles:
  "map (\<lambda>e. (el_font_size e, el_font_weight e)) (value_elements (createFooterSVG sn lab d n w h)) =
     (if truthy sn then [(84, Bold)] else [])
       @ replicate (length (filter truthy [lab, d, n])) (58, Weight 300)"
  by (cases "truthy sn"; cases "truthy lab"; cases "truthy d"; cases "truthy n";
      simp add: createFooterSVG_def value_elements_def labelX_def valueX_def)

lemma footer_label_styles:
  "map (\<lambda>e. (el_font_size e, weight_value (el_font_weight e)))
       (label_elements (createFooterSVG sn lab d n w h)) =
     replicate (length (filter truthy [sn, lab, d, n])) (58, 400)"
  by (cases "truthy sn"; cases "truthy lab"; cases "truthy d"; cases "truthy n";
      simp add: createFooterSVG_def label_elements_def labelX_def valueX_def)

text \<open>
  Claim C8. In the footer overlay every present field gives exactly one line, a label
  and a value on one baseline, and an absent field gives nothing: the baselines are
  stacked from 60 downwards, 68 below the serial-number line and 63 below any other,
  with no room left for an absent field. The value of the serial-number line is set in
  size 84 and bold; the values of the three other lines share size 58 and weight 300,
  which is smaller and lighter; all labels share size 58 and weight 400.
\<close>

theorem footer_lines_compact_and_styled:
  "length (label_elements (createFooterSVG sn lab d n w h)) = length (filter truthy [sn, lab, d, n])
   \<and> length (value_elements (createFooterSVG sn lab d n w h)) = length (filter truthy [sn, lab, d, n])
   \<and> svg_parts (createFooterSVG sn lab d n w h) =
       concat (map (\<lambda>(l, v). [l, v])
         (zip (label_elements (createFooterSVG sn lab d n w h))
              (value_elements (createFooterSVG sn lab d n w h))))
   \<and> map el_y (label_elements (createFooterSVG sn lab d n w h)) =
       stack_lines 60 [(truthy sn, 68), (truthy lab, 63), (truthy d, 63), (truthy n, 63)]
   \<and> map el_y (value_elements (createFooterSVG sn lab d n w h)) =
       stack_lines 60 [(truthy sn, 68), (truthy lab, 63), (truthy d, 63), (truthy n, 63)]
   \<and> map el_body (label_elements (createFooterSVG sn lab d n w h)) =
       map snd (filter (\<lambda>(v, l). truthy v)
         [(sn, ''Roll:''), (lab, ''Scaned by:''), (d, ''Date:''), (n, ''Notes:'')])
   \<and> map (\<lambda>e. (el_font_size e, el_font_weight e))
         (value_elements (createFooterSVG sn lab d n w h)) =
       (if truthy sn then [(84, Bold)] else [])
         @ replicate (length (filter truthy [lab, d, n])) (58, Weight 300)
   \<and> map (\<lambda>e. (el_font_size e, weight_value (el_font_weight e)))
         (label_elements (createFooterSVG sn lab d n w h)) =
       replicate (length (filter truthy [sn, lab, d, n])) (58, 400)
   \<and> (58::nat) < 84 \<and> weight_value (Weight 300) < weight_value Bold"
  by (intro conjI footer_line_count footer_lines_paired footer_baselines footer_label_bodies
      footer_value_styles footer_label_styles) simp_all

theorem footer_lines_compact_and_styled_witness:
  "map el_y (label_elements
       (createFooterSVG (Some ''CS-001'') None (Some ''2024'') None 1393 323)) = [60, 128]
   \<and> map el_body (label_elements
       (createFooterSVG (Some ''CS-001'') None (Some ''2024'') None 1393 323)) =
       [''Roll:'', ''Date:'']"
  using footer_lines_compact_and_styled [of "Some ''CS-001''" None "Some ''2024''" None 1393 323]
  by simp

section \<open>Discovery of the images\<close>

lemma ends_with_iff: "ends_with ext name \<longleftrightarrow> (\<exists>stem. stem \<noteq> [] \<and> name = stem @ ext)"
proof
  assume e: "ends_with ext name"
  let ?stem = "take (length name - length ext) name"
  have "name = ?stem @ ext"
    using e append_take_drop_id [of "length name - length ext" name]
    by (simp add: ends_with_def)
  moreover have "?stem \<noteq> []"
    using e by (auto simp: ends_with_def)
  ultimately show "\<exists>stem. stem \<noteq> [] \<and> name = stem @ ext" by blast
next
  assume "\<exists>stem. stem \<noteq> [] \<and> name = stem @ ext"
  then show "ends_with ext name"
    by (auto simp: ends_with_def)
qed

lemma extname_stem_ext:
  assumes "stem \<noteq> []" "CHR ''.'' \<notin> set e" "e \<noteq> []"
  shows "extname (stem @ CHR ''.'' # e) = CHR ''.'' # e"
proof -
  let ?name = "stem @ CHR ''.'' # e"
  let ?P = "\<lambda>ch. ch \<noteq> CHR ''.''"
  have r: "rev ?name = rev e @ CHR ''.'' # rev stem" by simp
  have all: "\<forall>x \<in> set (rev e). ?P x" using assms(2) by auto
  have "takeWhile ?P (rev e @ CHR ''.'' # rev stem) =
      rev e @ takeWhile ?P (CHR ''.'' # rev stem)"
    by (rule takeWhile_append2) (use all in blast)
  then have tw: "takeWhile ?P (rev ?name) = rev e"
    unfolding r by simp
  have "dropWhile ?P (rev e @ CHR ''.'' # rev stem) = dropWhile ?P (CHR ''.'' # rev stem)"
    by (rule dropWhile_append2) (use all in blast)
  then have dw: "dropWhile ?P (rev ?name) = CHR ''.'' # rev stem"
    unfolding r by simp
  have ne: "?name \<noteq> ''..''"
  proof
    assume "?name = ''..''"
    then have "length ?name = 2" by simp
    moreover have "length ?name \<ge> 3"
      using assms(1,3) by (cases stem; cases e) simp_all
    ultimately show False by simp
  qed
  have dot: "CHR ''.'' \<in> set ?name" by simp
  show ?thesis
    unfolding extname_def using dot tw dw ne assms(1) by (simp add: Let_def)
qed

lemma extname_nonempty:
  assumes "extname name \<noteq> []"
  shows "\<exists>stem. stem \<noteq> [] \<and> name = stem @ extname name"
proof -
  let ?P = "\<lambda>ch. ch \<noteq> CHR ''.''"
  let ?stem = "rev (tl (dropWhile ?P (rev name)))"
  let ?ext = "CHR ''.'' # rev (takeWhile ?P (rev name))"
  have dot: "CHR ''.'' \<in> set name"
    using assms by (auto simp: extname_def split: if_splits)
  have stem: "?stem \<noteq> []"
    using assms dot by (auto simp: extname_def Let_def split: if_splits)
  have ext: "extname name = ?ext"
    using assms dot by (auto simp: extname_def Let_def split: if_splits)
  have "dropWhile ?P (rev name) \<noteq> []"
    using dot by simp
  moreover have "hd (dropWhile ?P (rev name)) = CHR ''.''"
    using calculation hd_dropWhile [of ?P "rev name"] by auto
  ultimately have dw: "dropWhile ?P (rev name) = CHR ''.'' # tl (dropWhile ?P (rev name))"
    by (metis list.collapse)
  have "rev name = takeWhile ?P (rev name) @ dropWhile ?P (rev name)"
    by simp
  then have "rev name = takeWhile ?P (rev name) @ CHR ''.'' # tl (dropWhile ?P (rev name))"
    using dw by simp
  then have "rev (rev name) = rev (takeWhile ?P (rev name) @ CHR ''.'' # tl (dropWhile ?P (rev name)))"
    by (rule arg_cong)
  then have "name = ?stem @ ?ext"
    by simp
  then show ?thesis
    using stem ext by metis
qed

lemma extname_imageExtensions:
  "extname file \<in> set imageExtensions \<longleftrightarrow>
     (ends_with ''.jpg'' file \<or> ends_with ''.jpeg'' file
      \<or> ends_with ''.JPG'' file \<or> ends_with ''.JPEG'' file)"
proof
  assume a: "extname file \<in> set imageExtensions"
  then have "extname file \<noteq> []"
    by (auto simp: imageExtensions_def)
  then obtain stem where "stem \<noteq> []" "file = stem @ extname file"
    using extname_nonempty by blast
  then have "ends_with (extname file) file"
    unfolding ends_with_iff by blast
  then show "ends_with ''.jpg'' file \<or> ends_with ''.jpeg'' file
      \<or> ends_with ''.JPG'' file \<or> ends_with ''.JPEG'' file"
    using a by (auto simp: imageExtensions_def)
next
  assume "ends_with ''.jpg'' file \<or> ends_with ''.jpeg'' file
      \<or> ends_with ''.JPG'' file \<or> ends_with ''.JPEG'' file"
  then consider (a) stem where "stem \<noteq> []" "file = stem @ ''.jpg''"
    | (b) stem where "stem \<noteq> []" "file = stem @ ''.jpeg''"
    | (c) stem where "stem \<noteq> []" "file = stem @ ''.JPG''"
    | (d) stem where "stem \<noteq> []" "file = stem @ ''.JPEG''"
    unfolding ends_with_iff by blast
  then show "extname file \<in> set imageExtensions"
  proof cases
    case a
    then have "extname file = ''.jpg''"
      using extname_stem_ext [of stem "''jpg''"] by simp
    then show ?thesis by (simp add: imageExtensions_def)
  next
    case b
    then have "extname file = ''.jpeg''"
      using extname_stem_ext [of stem "''jpeg''"] by simp
    then show ?thesis by (simp add: imageExtensions_def)
  next
    case c
    then have "extname file = ''.JPG''"
      using extname_stem_ext [of stem "''JPG''"] by simp
    then show ?thesis by (simp add: imageExtensions_def)
  next
    case d
    then have "extname file = ''.JPEG''"
      using extname_stem_ext [of stem "''JPEG''"] by simp
    then show ?thesis by (simp add: imageExtensions_def)
  qed
qed

lemma MAX_IMAGES_value: "MAX_IMAGES = 36"
  by (simp add: MAX_IMAGES_def GRID_ROWS_def GRID_COLS_def)

text \<open>
  Claim C6, as amended. For every directory listing, \<open>getImages\<close> keeps exactly the
  names that are a non-empty stem followed by \<open>.jpg\<close>, \<open>.jpeg\<close>, \<open>.JPG\<close> or
  \<open>.JPEG\<close> (all lower case or all upper case, no other spelling), in the order of
  the listing, and passes on the first 36 of them only; a failure of the listing is
  rethrown as an error.
\<close>

theorem getImages_first_36_of_four_spellings:
  "getImages directory (Inr files) =
     Inr (map (\<lambda>file. \<lparr>filename = file, fullPath = path_join directory file\<rparr>)
           (take 36 (filter (\<lambda>file. ends_with ''.jpg'' file \<or> ends_with ''.jpeg'' file
                               \<or> ends_with ''.JPG'' file \<or> ends_with ''.JPEG'' file) files)))
   \<and> getImages directory (Inl message) = Inl (''Error reading directory: '' @ message)"
  by (simp add: getImages_def MAX_IMAGES_value extname_imageExtensions)

theorem getImages_first_36_of_four_spellings_witness:
  "\<exists>imgs. getImages ''/d'' (Inr (replicate 40 ''a.jpg'' @ [''b.png''])) = Inr imgs
      \<and> length imgs = 36 \<and> map filename imgs = replicate 36 ''a.jpg''"
  using getImages_first_36_of_four_spellings [of "''/d''" "replicate 40 ''a.jpg'' @ [''b.png'']"]
  by (simp add: ends_with_def)

text \<open>
  The claim as stated fails under either uniform reading of its case handling: of the
  listing \<open>a.JPG\<close>, \<open>b.Jpg\<close> the code keeps \<open>a.JPG\<close> alone, where a case-sensitive
  filter keeps neither name and a case-insensitive filter keeps both.
\<close>

theorem getImages_case_handling_counterexample:
  "getImages ''/d'' (Inr [''a.JPG'', ''b.Jpg'']) =
      Inr [\<lparr>filename = ''a.JPG'', fullPath = ''/d/a.JPG''\<rparr>]
   \<and> take 36 (filter jpeg_case_sensitive [''a.JPG'', ''b.Jpg'']) = []
   \<and> take 36 (filter jpeg_case_insensitive [''a.JPG'', ''b.Jpg'']) = [''a.JPG'', ''b.Jpg'']"
proof (intro conjI)
  show "getImages ''/d'' (Inr [''a.JPG'', ''b.Jpg'']) =
      Inr [\<lparr>filename = ''a.JPG'', fullPath = ''/d/a.JPG''\<rparr>]"
    by (simp add: getImages_def extname_def imageExtensions_def MAX_IMAGES_value path_join_def)
  show "take 36 (filter jpeg_case_sensitive [''a.JPG'', ''b.Jpg'']) = []"
    by (simp add: jpeg_case_sensitive_def extname_def)
  show "take 36 (filter jpeg_case_insensitive [''a.JPG'', ''b.Jpg'']) = [''a.JPG'', ''b.Jpg'']"
    by code_simp
qed

end
